theory Spec2Isabelle
  imports Main "HOL-Library.Multiset"
begin

section \<open>MinHeap: the array-backed binary min-heap of implementing-heap-in-python\<close>

text \<open>
  The heap is the Python list \<^verbatim>\<open>self.nodes\<close> of integers. Every method mutates that list in
  place; the model passes the list in and returns the new list. Indices the code computes are
  never negative on the paths modelled here, so they are natural numbers; elements are Python's
  unbounded integers.
\<close>

subsection \<open>Index helpers\<close>

definition get_left_child_index :: "nat \<Rightarrow> nat" where
  \<comment> \<open>Modelled from the spec: \<^verbatim>\<open>__get_left_child_index\<close> is one of the "helper methods defined
     previously" (minheap-1.py, not among the sources); the data model places the children of
     index \<open>i\<close> at \<open>2i+1\<close> and \<open>2i+2\<close> (0-based).\<close>
  "get_left_child_index i = 2 * i + 1"

definition get_right_child_index :: "nat \<Rightarrow> nat" where
  \<comment> \<open>Modelled from the spec: \<^verbatim>\<open>__get_right_child_index\<close>, missing as above; the right child
     of \<open>i\<close> is at \<open>2i+2\<close>.\<close>
  "get_right_child_index i = 2 * i + 2"

definition get_parent_index :: "nat \<Rightarrow> nat" where
  \<comment> \<open>Modelled from the spec: \<^verbatim>\<open>__get_parent_index\<close>, missing as above; the parent of a
     non-root index \<open>i\<close> is the index whose child at \<open>2j+1\<close> or \<open>2j+2\<close> is \<open>i\<close>. Only used at
     indices that have a parent.\<close>
  "get_parent_index i = (i - 1) div 2"

definition has_left_child :: "int list \<Rightarrow> nat \<Rightarrow> bool" where
  \<comment> \<open>Modelled from the spec: \<^verbatim>\<open>__has_left_child\<close>, missing as above; a child exists when its
     index lies inside the backing sequence.\<close>
  "has_left_child nodes i = (get_left_child_index i < length nodes)"

definition has_right_child :: "int list \<Rightarrow> nat \<Rightarrow> bool" where
  \<comment> \<open>Modelled from the spec: \<^verbatim>\<open>__has_right_child\<close>, missing as above.\<close>
  "has_right_child nodes i = (get_right_child_index i < length nodes)"

definition left_child :: "int list \<Rightarrow> nat \<Rightarrow> int" where
  \<comment> \<open>Modelled from the spec: \<^verbatim>\<open>__left_child\<close>, missing as above: the element stored at the
     left child's index. Every caller in the sources asks \<^verbatim>\<open>__has_left_child\<close> first.\<close>
  "left_child nodes i = nodes ! get_left_child_index i"

definition right_child :: "int list \<Rightarrow> nat \<Rightarrow> int" where
  \<comment> \<open>Modelled from the spec: \<^verbatim>\<open>__right_child\<close>, missing as above; every caller in the
     sources asks \<^verbatim>\<open>__has_right_child\<close> first.\<close>
  "right_child nodes i = nodes ! get_right_child_index i"

definition parent :: "int list \<Rightarrow> nat \<Rightarrow> int option" where
  \<comment> \<open>Modelled from the spec: \<^verbatim>\<open>__parent\<close>, missing as above: the element stored at the
     parent's index, and no value for the root, where sifting up stops ("stopping at the
     root").\<close>
  "parent nodes i =
     (if 0 < i \<and> i < length nodes then Some (nodes ! get_parent_index i) else None)"

definition truthy :: "int option \<Rightarrow> bool" where
  \<comment> \<open>Python's truth value of an \<^verbatim>\<open>Optional[int]\<close>: \<^verbatim>\<open>None\<close> and \<^verbatim>\<open>0\<close> are false.\<close>
  "truthy v = (case v of None \<Rightarrow> False | Some n \<Rightarrow> n \<noteq> 0)"

subsection \<open>The methods of the sources\<close>

definition swap :: "int list \<Rightarrow> nat \<Rightarrow> nat \<Rightarrow> int list" where
  \<comment> \<open>\<^verbatim>\<open>__swap\<close>: with an index past the end it prints a message and changes nothing.\<close>
  "swap nodes first_idx second_idx =
     (if first_idx \<ge> length nodes \<or> second_idx \<ge> length nodes then nodes
      else (let tmp = nodes ! first_idx
            in (nodes[first_idx := nodes ! second_idx])[second_idx := tmp]))"

partial_function (option) heapify_up :: "int list \<Rightarrow> nat option \<Rightarrow> int list option" where
  \<comment> \<open>\<^verbatim>\<open>__heapify_up\<close> (minheap-2.py). \<^verbatim>\<open>if not child\<close> holds for \<^verbatim>\<open>None\<close> and for index 0
     alike, and \<^verbatim>\<open>self.__parent(child) and ...\<close> tests the parent's value for truth. The
     method is private and only called by \<^verbatim>\<open>add\<close>, after the append, so the list is not
     empty. The result is \<open>None\<close> when the recursion does not return.\<close>
  "heapify_up nodes child =
     (let child = (case child of None \<Rightarrow> length nodes - 1
                   | Some c \<Rightarrow> if c = 0 then length nodes - 1 else c);
          parent_idx = get_parent_index child
      in if truthy (parent nodes child) \<and> nodes ! child < the (parent nodes child)
         then heapify_up (swap nodes child parent_idx) (Some parent_idx)
         else Some nodes)"

declare heapify_up.simps [code]

definition add :: "int list \<Rightarrow> int \<Rightarrow> int list option" where
  \<comment> \<open>\<^verbatim>\<open>add\<close> (minheap-2.py).\<close>
  "add nodes item = heapify_up (nodes @ [item]) None"

fun add_all :: "int list \<Rightarrow> int list \<Rightarrow> int list option" where
  \<comment> \<open>The loop \<^verbatim>\<open>for node in nodes: self.add(node)\<close> of the constructor.\<close>
  "add_all heap [] = Some heap"
| "add_all heap (node # rest) =
     (case add heap node of None \<Rightarrow> None | Some heap' \<Rightarrow> add_all heap' rest)"

definition MinHeap :: "int list \<Rightarrow> int list option" where
  \<comment> \<open>\<^verbatim>\<open>__init__\<close>: a fresh empty list, then every given node is added.\<close>
  "MinHeap nodes = add_all [] nodes"

function heapify_down :: "int list \<Rightarrow> nat \<Rightarrow> int list" where
  \<comment> \<open>\<^verbatim>\<open>__heapify_down\<close> (minheap-3.py). The value is the list after the call; what the method
     returns (the list, or nothing when parent and smaller child are equal) is dropped by
     every caller.\<close>
  "heapify_down nodes index =
     (if index \<ge> length nodes \<or> \<not> has_left_child nodes index then nodes
      else (let smaller_child_idx =
                  (if has_right_child nodes index
                      \<and> right_child nodes index < left_child nodes index
                   then get_right_child_index index
                   else get_left_child_index index)
            in if nodes ! index < nodes ! smaller_child_idx then nodes
               else if nodes ! index > nodes ! smaller_child_idx
               then heapify_down (swap nodes index smaller_child_idx) smaller_child_idx
               else nodes))"
  by pat_completeness auto

lemma length_swap [simp]: "length (swap nodes a b) = length nodes"
  by (simp add: swap_def Let_def)

termination heapify_down
  by (relation "measure (\<lambda>(nodes, index). length nodes - index)")
     (auto simp: has_left_child_def get_left_child_index_def get_right_child_index_def
           has_right_child_def)

declare heapify_down.simps [simp del]

definition is_empty :: "int list \<Rightarrow> bool" where
  \<comment> \<open>\<^verbatim>\<open>is_empty\<close> (minheap-4.py): \<^verbatim>\<open>not self.nodes\<close>.\<close>
  "is_empty nodes = (nodes = [])"

datatype error = IndexError | AttributeError

definition peek :: "int list \<Rightarrow> error + int option" where
  \<comment> \<open>\<^verbatim>\<open>peek\<close> (minheap-4.py), with the test as the source has it: \<^verbatim>\<open>None\<close> unless the heap
     is empty, and then \<^verbatim>\<open>self.nodes[0]\<close>, which raises on the empty list.\<close>
  "peek nodes =
     (if \<not> is_empty nodes then Inr None
      else if 0 < length nodes then Inr (Some (nodes ! 0)) else Inl IndexError)"

definition poll :: "int list \<Rightarrow> int option \<times> int list" where
  \<comment> \<open>\<^verbatim>\<open>poll\<close> (minheap-3.py): the returned value and the list after the call.\<close>
  "poll nodes =
     (if is_empty nodes then (None, nodes)
      else (let removed_node = nodes ! 0;
                nodes1 = nodes[0 := nodes ! (length nodes - 1)];
                nodes2 = butlast nodes1
            in (Some removed_node, heapify_down nodes2 0)))"

function heapify_children :: "int list \<Rightarrow> nat \<Rightarrow> int list" where
  \<comment> \<open>\<^verbatim>\<open>heapify_children\<close> (minheap-6.py): the list after the call.\<close>
  "heapify_children nodes index =
     (if \<not> has_left_child nodes index then nodes
      else if \<not> has_right_child nodes index then nodes
      else (let nodes1 =
                  (if right_child nodes index < left_child nodes index
                   then swap nodes (get_right_child_index index) (get_left_child_index index)
                   else nodes);
                nodes2 = heapify_children nodes1 (get_left_child_index index)
            in heapify_children nodes2 (get_right_child_index index)))"
  by pat_completeness auto

lemma heapify_children_length_dom:
  "heapify_children_dom (nodes, index) \<Longrightarrow> length (heapify_children nodes index) = length nodes"
  by (induction nodes index rule: heapify_children.pinduct)
     (simp add: heapify_children.psimps Let_def)

termination heapify_children
  by (relation "measure (\<lambda>(nodes, index). length nodes - index)")
     (auto simp: heapify_children_length_dom has_left_child_def has_right_child_def
           get_left_child_index_def get_right_child_index_def)

declare heapify_children.simps [simp del]

definition call_heapify_down :: "int list \<Rightarrow> nat \<Rightarrow> error + int list" where
  \<comment> \<open>\<^verbatim>\<open>heap.heapify_down(idx)\<close>, as \<^verbatim>\<open>heapsort_in_place\<close> writes it at module level. The
     class of the sources has no attribute of that name: the method of minheap-3.py is
     \<^verbatim>\<open>__heapify_down\<close>, which Python stores as \<^verbatim>\<open>_MinHeap__heapify_down\<close>, and no file
     defines a public \<^verbatim>\<open>heapify_down\<close>. Looking the attribute up raises before anything is
     called, whatever the list and the index.\<close>
  "call_heapify_down nodes idx = Inl AttributeError"

fun heapify_down_from :: "int list \<Rightarrow> nat list \<Rightarrow> error + int list" where
  \<comment> \<open>The loop \<^verbatim>\<open>for idx in ...: heap.heapify_down(idx)\<close> over the indices it is given; an
     exception ends it.\<close>
  "heapify_down_from nodes [] = Inr nodes"
| "heapify_down_from nodes (idx # rest) =
     (case call_heapify_down nodes idx of
        Inl e \<Rightarrow> Inl e
      | Inr nodes' \<Rightarrow> heapify_down_from nodes' rest)"

definition heapsort_in_place :: "int list \<Rightarrow> error + int list" where
  \<comment> \<open>\<^verbatim>\<open>heapsort_in_place\<close> (minheap-6.py): \<^verbatim>\<open>range(size // 2, -1, -1)\<close> is
     \<open>size div 2, ..., 1, 0\<close>, never empty. \<^verbatim>\<open>MinHeap()\<close> adds nothing, and \<^verbatim>\<open>heap.nodes\<close>
     is the list given.\<close>
  "heapsort_in_place unsorted_input =
     (let nodes = unsorted_input;
          size = length unsorted_input
      in (case heapify_down_from nodes (rev [0..<size div 2 + 1]) of
            Inl e \<Rightarrow> Inl e
          | Inr nodes' \<Rightarrow> Inr (heapify_children nodes' 0)))"

subsection \<open>The min-heap invariant of the data model\<close>

definition heap_at :: "int list \<Rightarrow> nat \<Rightarrow> bool" where
  \<comment> \<open>The element at \<open>i\<close> is not above either child that exists.\<close>
  "heap_at nodes i =
     ((if has_left_child nodes i then nodes ! i \<le> left_child nodes i else True)
      \<and> (if has_right_child nodes i then nodes ! i \<le> right_child nodes i else True))"

definition is_heap :: "int list \<Rightarrow> bool" where
  \<comment> \<open>The invariant of the data model: every index of the list satisfies it.\<close>
  "is_heap nodes = list_all (heap_at nodes) [0..<length nodes]"

definition heap_except :: "nat \<Rightarrow> nat \<Rightarrow> int list \<Rightarrow> bool" where
  \<comment> \<open>The state in the middle of sifting down: from index \<open>lo\<close> on, every index but \<open>i\<close>
     satisfies the invariant, and the parent of \<open>i\<close> (when it is at \<open>lo\<close> or later) is not
     above the children of \<open>i\<close>.\<close>
  "heap_except lo i nodes \<longleftrightarrow>
     (\<forall>j\<ge>lo. j \<noteq> i \<longrightarrow> heap_at nodes j) \<and>
     (0 < i \<and> lo \<le> (i - 1) div 2 \<longrightarrow>
        (2 * i + 1 < length nodes \<longrightarrow> nodes ! ((i - 1) div 2) \<le> nodes ! (2 * i + 1)) \<and>
        (2 * i + 2 < length nodes \<longrightarrow> nodes ! ((i - 1) div 2) \<le> nodes ! (2 * i + 2)))"

definition after_removal :: "int list \<Rightarrow> int list" where
  \<comment> \<open>The list \<^verbatim>\<open>poll\<close> hands to \<^verbatim>\<open>__heapify_down\<close>: the last element copied over the root,
     then the last position deleted.\<close>
  "after_removal nodes = butlast (nodes[0 := nodes ! (length nodes - 1)])"

subsection \<open>Heapsort with auxiliary space, over a store of list objects\<close>

text \<open>
  Whether two Python lists are the same object is not a property of their contents. The lists
  \<^verbatim>\<open>heapsort_aux\<close> touches therefore live in a store: a reference is an index into it, and
  creating a list (\<^verbatim>\<open>[]\<close>) appends a new object, whose reference is the old length.
\<close>

datatype pyobj =
    IntList "int list"           \<comment> \<open>a \<^verbatim>\<open>List[int]\<close>\<close>
  | OptList "int option list"    \<comment> \<open>a list of \<^verbatim>\<open>poll\<close> results, each an \<^verbatim>\<open>Optional[int]\<close>\<close>

type_synonym store = "pyobj list"

definition alloc :: "store \<Rightarrow> pyobj \<Rightarrow> store \<times> nat" where
  "alloc st obj = (st @ [obj], length st)"

fun poll_loop :: "nat \<Rightarrow> store \<Rightarrow> nat \<Rightarrow> nat \<Rightarrow> store" where
  \<comment> \<open>\<^verbatim>\<open>for _ in range(n): sorted_input.append(heap.poll())\<close>, with \<^verbatim>\<open>heap.nodes\<close> and
     \<^verbatim>\<open>sorted_input\<close> given by reference; both are mutated in place.\<close>
  "poll_loop 0 st heap_nodes sorted_input = st"
| "poll_loop (Suc n) st heap_nodes sorted_input =
     (case st ! heap_nodes of
        IntList nodes \<Rightarrow>
          (let (polled, nodes') = poll nodes;
               st1 = st[heap_nodes := IntList nodes']
           in (case st1 ! sorted_input of
                 OptList out \<Rightarrow>
                   poll_loop n (st1[sorted_input := OptList (out @ [polled])])
                     heap_nodes sorted_input
               | IntList _ \<Rightarrow> st1))
      | OptList _ \<Rightarrow> st)"

definition heapsort_aux :: "store \<Rightarrow> nat \<Rightarrow> (store \<times> nat) option" where
  \<comment> \<open>\<^verbatim>\<open>heapsort_aux\<close> (minheap-5.py): the store after the call and the reference returned.
     The argument is a reference to a \<^verbatim>\<open>List[int]\<close>; \<open>None\<close> stands for a call that does
     not return (or an argument that is no such reference).\<close>
  "heapsort_aux st unsorted_input =
     (if unsorted_input < length st then
        (case st ! unsorted_input of
           IntList given \<Rightarrow>
             (let (st1, heap_nodes) = alloc st (IntList [])
              in (case add_all [] given of
                    None \<Rightarrow> None
                  | Some nodes \<Rightarrow>
                      (let st2 = st1[heap_nodes := IntList nodes];
                           (st3, sorted_input) = alloc st2 (OptList []);
                           st4 = poll_loop (length given) st3 heap_nodes sorted_input
                       in Some (st4, sorted_input))))
         | OptList _ \<Rightarrow> None)
      else None)"

fun poll_into :: "nat \<Rightarrow> int list \<Rightarrow> int option list \<Rightarrow> int list \<times> int option list" where
  \<comment> \<open>The same loop on the contents of the two lists alone; \<open>poll_loop_contents\<close> below
     relates it to the loop on the store.\<close>
  "poll_into 0 nodes out = (nodes, out)"
| "poll_into (Suc n) nodes out =
     (let (polled, nodes') = poll nodes in poll_into n nodes' (out @ [polled]))"

section \<open>SinglyLinkedList: the list of implementing-linked-lists-in-python (part6.py)\<close>

datatype payload = PStr string | PInt int

datatype SLLNode = SLLNode (data: payload) (nxt: "SLLNode option")

record SinglyLinkedList =
  HEAD :: SLLNode

fun nodes_from :: "SLLNode \<Rightarrow> SLLNode list" where
  \<comment> \<open>What the generator yields, started at a node: the node, then its successors.\<close>
  "nodes_from (SLLNode d None) = [SLLNode d None]"
| "nodes_from (SLLNode d (Some n)) = SLLNode d (Some n) # nodes_from n"

definition iter :: "SinglyLinkedList \<Rightarrow> SLLNode list" where
  \<comment> \<open>\<^verbatim>\<open>__iter__\<close>: starts at the sentinel, which is yielded too.\<close>
  "iter l = nodes_from (HEAD l)"

definition len :: "SinglyLinkedList \<Rightarrow> int" where
  \<comment> \<open>\<^verbatim>\<open>__len__\<close>.\<close>
  "len l = int (length (iter l)) - 1"

fun append_node :: "SLLNode \<Rightarrow> payload \<Rightarrow> SLLNode" where
  "append_node (SLLNode d None) x = SLLNode d (Some (SLLNode x None))"
| "append_node (SLLNode d (Some n)) x = SLLNode d (Some (append_node n x))"

definition append :: "SinglyLinkedList \<Rightarrow> payload \<Rightarrow> SinglyLinkedList" where
  \<comment> \<open>\<^verbatim>\<open>append\<close>: a new node after the last node the iteration reaches.\<close>
  "append l x = l\<lparr>HEAD := append_node (HEAD l) x\<rparr>"

definition empty_list :: SinglyLinkedList where
  \<comment> \<open>\<^verbatim>\<open>SinglyLinkedList()\<close>: only the sentinel, whose payload is the string HEAD.\<close>
  "empty_list = \<lparr>HEAD = SLLNode (PStr ''HEAD'') None\<rparr>"

fun contains_loop :: "SLLNode list \<Rightarrow> payload \<Rightarrow> bool" where
  "contains_loop [] x = False"
| "contains_loop (node # rest) x = (if data node = x then True else contains_loop rest x)"

definition contains :: "SinglyLinkedList \<Rightarrow> payload \<Rightarrow> bool" where
  \<comment> \<open>\<^verbatim>\<open>__contains__\<close>.\<close>
  "contains l x = contains_loop (iter l) x"

fun find_loop :: "SLLNode list \<Rightarrow> payload \<Rightarrow> SLLNode option" where
  "find_loop [] x = None"
| "find_loop (node # rest) x = (if data node = x then Some node else find_loop rest x)"

definition find :: "SinglyLinkedList \<Rightarrow> payload \<Rightarrow> SLLNode option" where
  \<comment> \<open>\<^verbatim>\<open>find\<close>: \<^verbatim>\<open>None\<close> at once on a list without data nodes, and \<^verbatim>\<open>None\<close> again when
     the loop ends without a match.\<close>
  "find l x = (if nxt (HEAD l) = None then None else find_loop (iter l) x)"

fun walk :: "nat \<Rightarrow> SLLNode option \<Rightarrow> error + SLLNode option" where
  \<comment> \<open>\<^verbatim>\<open>for _ in range(k): node = node.next\<close>; reading \<^verbatim>\<open>.next\<close> of \<^verbatim>\<open>None\<close> raises.\<close>
  "walk 0 node = Inr node"
| "walk (Suc k) None = Inl AttributeError"
| "walk (Suc k) (Some n) = walk k (nxt n)"

definition out_of_range :: "SinglyLinkedList \<Rightarrow> int \<Rightarrow> bool" where
  \<comment> \<open>The guard of the three indexed methods, as written:
     \<^verbatim>\<open>index < 0 and index > len(self) - 1\<close>.\<close>
  "out_of_range l index = (index < 0 \<and> index > len l - 1)"

definition getitem :: "SinglyLinkedList \<Rightarrow> int \<Rightarrow> error + SLLNode option" where
  \<comment> \<open>\<^verbatim>\<open>__getitem__\<close>: \<^verbatim>\<open>range(index)\<close> is empty for a negative index.\<close>
  "getitem l index =
     (if out_of_range l index then Inl IndexError
      else (case walk (nat index) (Some (HEAD l)) of
              Inl e \<Rightarrow> Inl e
            | Inr None \<Rightarrow> Inl AttributeError
            | Inr (Some node) \<Rightarrow> Inr (nxt node)))"

fun set_data_at :: "nat \<Rightarrow> payload \<Rightarrow> SLLNode \<Rightarrow> error + SLLNode" where
  \<comment> \<open>\<open>k\<close> steps along \<^verbatim>\<open>.next\<close>, then \<^verbatim>\<open>node.data = v\<close>; the chain with that node changed.\<close>
  "set_data_at 0 v (SLLNode d nx) = Inr (SLLNode v nx)"
| "set_data_at (Suc k) v (SLLNode d None) = Inl AttributeError"
| "set_data_at (Suc k) v (SLLNode d (Some n)) =
     (case set_data_at k v n of Inl e \<Rightarrow> Inl e | Inr n' \<Rightarrow> Inr (SLLNode d (Some n')))"

definition setitem :: "SinglyLinkedList \<Rightarrow> int \<Rightarrow> payload \<Rightarrow> error + SinglyLinkedList" where
  \<comment> \<open>\<^verbatim>\<open>__setitem__\<close>: the list after the call, which is also what it returns.\<close>
  "setitem l index v =
     (if out_of_range l index then Inl IndexError
      else (case set_data_at (nat (index + 1)) v (HEAD l) of
              Inl e \<Rightarrow> Inl e
            | Inr h \<Rightarrow> Inr (l\<lparr>HEAD := h\<rparr>)))"

fun unlink_after :: "nat \<Rightarrow> SLLNode \<Rightarrow> error + SLLNode" where
  \<comment> \<open>\<open>k\<close> steps along \<^verbatim>\<open>.next\<close>, then
     \<^verbatim>\<open>node.next = node.next.next if node.next else None\<close>.\<close>
  "unlink_after 0 (SLLNode d nx) =
     Inr (SLLNode d (case nx of None \<Rightarrow> None | Some n \<Rightarrow> nxt n))"
| "unlink_after (Suc k) (SLLNode d None) = Inl AttributeError"
| "unlink_after (Suc k) (SLLNode d (Some n)) =
     (case unlink_after k n of Inl e \<Rightarrow> Inl e | Inr n' \<Rightarrow> Inr (SLLNode d (Some n')))"

definition delitem :: "SinglyLinkedList \<Rightarrow> int \<Rightarrow> error + SinglyLinkedList" where
  \<comment> \<open>\<^verbatim>\<open>__delitem__\<close>: the list after the call.\<close>
  "delitem l index =
     (if out_of_range l index then Inl IndexError
      else (case unlink_after (nat index) (HEAD l) of
              Inl e \<Rightarrow> Inl e
            | Inr h \<Rightarrow> Inr (l\<lparr>HEAD := h\<rparr>)))"

fun remove_loop :: "SLLNode \<Rightarrow> payload \<Rightarrow> error + SLLNode" where
  \<comment> \<open>The loop of \<^verbatim>\<open>remove\<close> from the node the iteration is at: it reads
     \<^verbatim>\<open>node.next.data\<close>, which raises at the last node, where \<^verbatim>\<open>node.next\<close> is \<^verbatim>\<open>None\<close>.\<close>
  "remove_loop (SLLNode d None) x = Inl AttributeError"
| "remove_loop (SLLNode d (Some n)) x =
     (if data n = x then Inr (SLLNode d (nxt n))
      else (case remove_loop n x of Inl e \<Rightarrow> Inl e | Inr n' \<Rightarrow> Inr (SLLNode d (Some n'))))"

definition remove ::
  "SinglyLinkedList \<Rightarrow> payload \<Rightarrow> error + (SinglyLinkedList option \<times> SinglyLinkedList)" where
  \<comment> \<open>\<^verbatim>\<open>remove\<close>: what it returns (\<^verbatim>\<open>None\<close>, or the list itself) and the list after the
     call.\<close>
  "remove l x =
     (if nxt (HEAD l) = None then Inr (None, l)
      else (case remove_loop (HEAD l) x of
              Inl e \<Rightarrow> Inl e
            | Inr h \<Rightarrow> Inr (Some (l\<lparr>HEAD := h\<rparr>), l\<lparr>HEAD := h\<rparr>)))"

definition payloads :: "SinglyLinkedList \<Rightarrow> payload list" where
  \<comment> \<open>The payloads of the data nodes, in order: what the iteration yields after the
     sentinel.\<close>
  "payloads l = map data (tl (iter l))"

section \<open>Verification of MinHeap\<close>

subsection \<open>Sifting down restores the invariant\<close>

lemma heap_at_iff:
  "heap_at nodes i \<longleftrightarrow>
     (2 * i + 1 < length nodes \<longrightarrow> nodes ! i \<le> nodes ! (2 * i + 1)) \<and>
     (2 * i + 2 < length nodes \<longrightarrow> nodes ! i \<le> nodes ! (2 * i + 2))"
  by (simp add: heap_at_def has_left_child_def has_right_child_def left_child_def
      right_child_def get_left_child_index_def get_right_child_index_def)

lemma is_heap_iff: "is_heap nodes \<longleftrightarrow> (\<forall>i. heap_at nodes i)"
proof -
  have "heap_at nodes i" if "length nodes \<le> i" for i
    using that by (simp add: heap_at_iff)
  then show ?thesis
    by (auto simp: is_heap_def list_all_iff)
qed

lemma swap_nth:
  "a < length nodes \<Longrightarrow> b < length nodes \<Longrightarrow>
   swap nodes a b ! k = (if k = b then nodes ! a else if k = a then nodes ! b else nodes ! k)"
  by (simp add: swap_def Let_def nth_list_update)

lemma length_heapify_down [simp]: "length (heapify_down nodes i) = length nodes"
  by (induction nodes i rule: heapify_down.induct)
     (subst heapify_down.simps, simp add: Let_def)

lemma mset_swap_nodes [simp]: "mset (swap nodes a b) = mset nodes"
  by (simp add: swap_def Let_def mset_swap)

lemma mset_heapify_down [simp]: "mset (heapify_down nodes i) = mset nodes"
  by (induction nodes i rule: heapify_down.induct)
     (subst heapify_down.simps, simp add: Let_def)


lemma heap_except_swap:
  assumes he: "heap_except lo i nodes" and lo: "lo \<le> i"
    and c: "c = 2 * i + 1 \<or> c = 2 * i + 2" and clen: "c < length nodes"
    and small: "2 * i + 1 < length nodes \<longrightarrow> nodes ! c \<le> nodes ! (2 * i + 1)"
               "2 * i + 2 < length nodes \<longrightarrow> nodes ! c \<le> nodes ! (2 * i + 2)"
    and gt: "nodes ! c < nodes ! i"
  shows "heap_except lo c (swap nodes i c)"
proof -
  have ilen: "i < length nodes" using c clen by auto
  note nth = swap_nth [OF ilen clen]
  have at: "heap_at nodes j" if "lo \<le> j" "j \<noteq> i" for j
    using he that by (simp add: heap_except_def)
  have "heap_at (swap nodes i c) j" if j: "lo \<le> j" "j \<noteq> c" for j
  proof (cases "j = i")
    case True
    then show ?thesis using c small gt
      by (auto simp: heap_at_iff nth)
  next
    case False
    note ji = this
    show ?thesis
    proof (cases "0 < i \<and> j = (i - 1) div 2")
      case True
      then have "(2 * i + 1 < length nodes \<longrightarrow> nodes ! j \<le> nodes ! (2 * i + 1)) \<and>
        (2 * i + 2 < length nodes \<longrightarrow> nodes ! j \<le> nodes ! (2 * i + 2))"
        using he j by (simp add: heap_except_def)
      then have jc: "nodes ! j \<le> nodes ! c" using c clen by auto
      have "2 * j + 1 \<noteq> c" "2 * j + 2 \<noteq> c" using True c by presburger+
      then show ?thesis
        using at [OF j(1) ji] jc j(2) ji
        by (auto simp: heap_at_iff nth)
    next
      case False
      then have "2 * j + 1 \<noteq> i" "2 * j + 2 \<noteq> i" by presburger+
      moreover have "2 * j + 1 \<noteq> c" "2 * j + 2 \<noteq> c" using ji c by presburger+
      ultimately show ?thesis
        using at [OF j(1) ji] j(2) ji
        by (auto simp: heap_at_iff nth)
    qed
  qed
  moreover have "(c - 1) div 2 = i" using c by presburger
  moreover have "heap_at nodes c" using at [of c] lo c by auto
  ultimately show ?thesis
    using c clen gt by (auto simp: heap_except_def heap_at_iff nth)
qed

lemma heapify_down_heap:
  "heap_except lo i nodes \<Longrightarrow> lo \<le> i \<Longrightarrow> lo \<le> j \<Longrightarrow> heap_at (heapify_down nodes i) j"
proof (induction nodes i rule: heapify_down.induct)
  case (1 nodes index)
  show ?case
  proof (cases "index \<ge> length nodes \<or> \<not> has_left_child nodes index")
    case True
    then have "heap_at nodes index"
      by (auto simp: heap_at_iff has_left_child_def get_left_child_index_def)
    with 1(2,4) True show ?thesis
      by (subst heapify_down.simps) (auto simp: heap_except_def)
  next
    case False
    define c where "c = (if has_right_child nodes index
                      \<and> right_child nodes index < left_child nodes index
                   then get_right_child_index index
                   else get_left_child_index index)"
    have c: "c = 2 * index + 1 \<or> c = 2 * index + 2"
      by (simp add: c_def get_left_child_index_def get_right_child_index_def)
    have clen: "c < length nodes" using False
      by (auto simp: c_def has_left_child_def has_right_child_def)
    have small: "2 * index + 1 < length nodes \<longrightarrow> nodes ! c \<le> nodes ! (2 * index + 1)"
               "2 * index + 2 < length nodes \<longrightarrow> nodes ! c \<le> nodes ! (2 * index + 2)"
      by (auto simp: c_def has_right_child_def left_child_def right_child_def
          get_left_child_index_def get_right_child_index_def)
    have unfold: "heapify_down nodes index =
      (if nodes ! index < nodes ! c then nodes
       else if nodes ! index > nodes ! c then heapify_down (swap nodes index c) c else nodes)"
      using False by (subst heapify_down.simps) (simp add: c_def Let_def)
    show ?thesis
    proof (cases "nodes ! c < nodes ! index")
      case True
      have "heap_except lo c (swap nodes index c)"
        by (rule heap_except_swap [OF 1(2,3) c clen small True])
      moreover have "lo \<le> c" using 1(3) c by auto
      ultimately have "heap_at (heapify_down (swap nodes index c) c) j"
        using 1(1) [OF False c_def _ _ _ _ 1(4)] True by simp
      then show ?thesis using True unfold by simp
    next
      case False
      then have "heap_at nodes index" using small
        by (auto simp: heap_at_iff)
      with 1(2,4) False unfold show ?thesis
        by (auto simp: heap_except_def)
    qed
  qed
qed


lemma heap_root_le:
  assumes "is_heap nodes"
  shows "i < length nodes \<Longrightarrow> nodes ! 0 \<le> nodes ! i"
proof (induction i rule: less_induct)
  case (less i)
  show ?case
  proof (cases "i = 0")
    case True
    then show ?thesis by simp
  next
    case False
    define p where "p = (i - 1) div 2"
    have p: "p < i" "i = 2 * p + 1 \<or> i = 2 * p + 2"
      using False unfolding p_def by presburger+
    have "heap_at nodes p" using assms by (simp add: is_heap_iff)
    then have "nodes ! p \<le> nodes ! i"
      using p(2) less.prems by (auto simp: heap_at_iff)
    moreover have "nodes ! 0 \<le> nodes ! p"
      using less.IH [OF p(1)] p(1) less.prems by simp
    ultimately show ?thesis by simp
  qed
qed

lemma heap_root_Min:
  assumes "is_heap nodes" "nodes \<noteq> []"
  shows "nodes ! 0 = Min (set nodes)"
proof (rule antisym)
  show "nodes ! 0 \<le> Min (set nodes)"
    using assms heap_root_le [OF assms(1)]
    by (auto simp: in_set_conv_nth)
  show "Min (set nodes) \<le> nodes ! 0"
    using assms(2) by simp
qed

lemma heapify_down_is_heap:
  "heap_except 0 i nodes \<Longrightarrow> is_heap (heapify_down nodes i)"
  by (simp add: is_heap_iff heapify_down_heap)

lemma mset_after_removal:
  assumes "nodes \<noteq> []"
  shows "mset (after_removal nodes) = mset nodes - {#nodes ! 0#}"
proof (cases nodes)
  case Nil
  with assms show ?thesis by simp
next
  case (Cons x xs)
  show ?thesis
  proof (cases "xs = []")
    case True
    with Cons show ?thesis by (simp add: after_removal_def)
  next
    case False
    then have "xs = butlast xs @ [last xs]" by simp
    then have "mset xs = mset (butlast xs) + {#last xs#}"
      by (metis mset.simps(1) mset.simps(2) mset_append)
    moreover have "(x # xs) ! length xs = last xs"
      using False by (metis last_conv_nth length_Cons list.discI last_ConsR diff_Suc_1)
    ultimately show ?thesis
      using Cons False by (simp add: after_removal_def)
  qed
qed

lemma heap_except_after_removal:
  assumes "is_heap nodes"
  shows "heap_except 0 0 (after_removal nodes)"
proof -
  have nth: "after_removal nodes ! k = nodes ! k"
    if "0 < k" "k < length (after_removal nodes)" for k
    using that by (simp add: after_removal_def nth_butlast)
  have len: "length (after_removal nodes) = length nodes - 1"
    by (simp add: after_removal_def)
  have "heap_at (after_removal nodes) j" if "j \<noteq> 0" for j
  proof -
    have "heap_at nodes j" using assms by (simp add: is_heap_iff)
    then show ?thesis
      using that by (auto simp: heap_at_iff nth len)
  qed
  then show ?thesis by (simp add: heap_except_def)
qed

lemma poll_unfold:
  "nodes \<noteq> [] \<Longrightarrow> poll nodes = (Some (nodes ! 0), heapify_down (after_removal nodes) 0)"
  by (simp add: poll_def is_empty_def after_removal_def Let_def)

text \<open>
  C3: on a state satisfying the min-heap invariant, \<^verbatim>\<open>poll\<close> on an empty heap returns the
  empty signal and leaves the state as it is; on a non-empty heap it returns the minimum of the
  stored elements, and the state it leaves satisfies the invariant and holds the prior multiset
  minus one occurrence of that minimum.
\<close>

theorem poll_correct:
  assumes "is_heap nodes"
  shows "if nodes = [] then poll nodes = (None, nodes)
         else fst (poll nodes) = Some (Min (set nodes))
              \<and> is_heap (snd (poll nodes))
              \<and> mset (snd (poll nodes)) = mset nodes - {#Min (set nodes)#}"
proof (cases "nodes = []")
  case True
  then show ?thesis by (simp add: poll_def is_empty_def)
next
  case False
  have "nodes ! 0 = Min (set nodes)" by (rule heap_root_Min [OF assms False])
  moreover have "is_heap (heapify_down (after_removal nodes) 0)"
    by (rule heapify_down_is_heap [OF heap_except_after_removal [OF assms]])
  moreover have "mset (heapify_down (after_removal nodes) 0) = mset nodes - {#nodes ! 0#}"
    by (simp add: mset_after_removal [OF False])
  ultimately show ?thesis
    using False by (simp add: poll_unfold)
qed

theorem poll_correct_witness:
  "is_heap [8, 15, 10, 20, 17]
   \<and> poll [8, 15, 10, 20, 17] = (Some 8, [10, 15, 17, 20])
   \<and> Min (set [8, 15, 10, 20, 17 :: int]) = 8
   \<and> is_heap [10, 15, 17, 20]
   \<and> mset [10, 15, 17, 20] = mset [8, 15, 10, 20, 17 :: int] - {#8#}"
proof -
  have h: "is_heap [8, 15, 10, 20, 17]" by code_simp
  have p: "poll [8, 15, 10, 20, 17] = (Some 8, [10, 15, 17, 20])" by code_simp
  show ?thesis using poll_correct [OF h] h p by simp
qed


text \<open>
  \<^verbatim>\<open>__heapify_down(i)\<close> on every list: when every index after \<open>i\<close> satisfies the
  invariant, then after the call every index from \<open>i\<close> on does, and the list holds the same
  multiset at the same length.
\<close>

theorem heapify_down_restores:
  assumes "\<And>j. i < j \<Longrightarrow> heap_at nodes j"
  shows "(\<forall>j\<ge>i. heap_at (heapify_down nodes i) j)
         \<and> mset (heapify_down nodes i) = mset nodes
         \<and> length (heapify_down nodes i) = length nodes"
proof -
  have "\<not> (0 < i \<and> i \<le> (i - 1) div 2)" by presburger
  moreover have "heap_at nodes j" if "i \<le> j" "j \<noteq> i" for j
    using that assms [of j] by simp
  ultimately have "heap_except i i nodes" unfolding heap_except_def by blast
  then show ?thesis by (simp add: heapify_down_heap)
qed

theorem heapify_down_restores_witness:
  "heapify_down [9, 1, 2, 5, 3] 0 = [1, 3, 2, 5, 9]
   \<and> is_heap [1, 3, 2, 5, 9]
   \<and> mset [1, 3, 2, 5, 9] = mset [9, 1, 2, 5, 3 :: int]"
proof -
  have e: "heapify_down [9, 1, 2, 5, 3] 0 = [1, 3, 2, 5, 9]" by code_simp
  have h: "heap_at [9, 1, 2, 5, 3] j" if "0 < j" for j
  proof -
    have "j = 1 \<or> 2 \<le> j" using that by auto
    then show ?thesis by (auto simp: heap_at_iff)
  qed
  show ?thesis
    using heapify_down_restores [of 0 "[9, 1, 2, 5, 3]", OF h] e
    by (simp add: is_heap_iff)
qed

subsection \<open>\<^verbatim>\<open>heapify_children\<close> and \<^verbatim>\<open>heapsort_in_place\<close>\<close>

lemma heapify_children_props:
  "length (heapify_children nodes index) = length nodes
   \<and> mset (heapify_children nodes index) = mset nodes
   \<and> (\<forall>k. k < 2 * index + 1 \<longrightarrow> heapify_children nodes index ! k = nodes ! k)"
proof (induction nodes index rule: heapify_children.induct)
  case (1 nodes index)
  show ?case
  proof (cases "has_left_child nodes index \<and> has_right_child nodes index")
    case False
    then have "heapify_children nodes index = nodes"
      by (subst heapify_children.simps) auto
    then show ?thesis by simp
  next
    case True
    define l where "l = get_left_child_index index"
    define r where "r = get_right_child_index index"
    define nodes1 where "nodes1 = (if right_child nodes index < left_child nodes index
                   then swap nodes r l else nodes)"
    define nodes2 where "nodes2 = heapify_children nodes1 l"
    have lr: "l = 2 * index + 1" "r = 2 * index + 2"
      by (simp_all add: l_def r_def get_left_child_index_def get_right_child_index_def)
    have len: "l < length nodes" "r < length nodes"
      using True by (simp_all add: l_def r_def has_left_child_def has_right_child_def)
    have unfold: "heapify_children nodes index = heapify_children nodes2 r"
      using True by (subst heapify_children.simps)
        (simp add: nodes2_def nodes1_def l_def r_def Let_def)
    have p1: "length nodes1 = length nodes \<and> mset nodes1 = mset nodes
      \<and> (\<forall>k. k < 2 * index + 1 \<longrightarrow> nodes1 ! k = nodes ! k)"
      using len lr by (simp add: nodes1_def swap_nth)
    from True have hl: "\<not> \<not> has_left_child nodes index"
      and hr: "\<not> \<not> has_right_child nodes index" by simp_all
    have p2: "length nodes2 = length nodes1 \<and> mset nodes2 = mset nodes1
      \<and> (\<forall>k. k < 2 * l + 1 \<longrightarrow> nodes2 ! k = nodes1 ! k)"
      using 1(1) [OF hl hr refl]
      unfolding nodes2_def nodes1_def l_def r_def .
    have p3: "length (heapify_children nodes2 r) = length nodes2
      \<and> mset (heapify_children nodes2 r) = mset nodes2
      \<and> (\<forall>k. k < 2 * r + 1 \<longrightarrow> heapify_children nodes2 r ! k = nodes2 ! k)"
      using 1(2) [OF hl hr refl refl]
      unfolding nodes2_def nodes1_def l_def r_def .
    show ?thesis
      unfolding unfold using p1 p2 p3 lr by auto
  qed
qed

lemma heapify_down_from_raises:
  "idxs \<noteq> [] \<Longrightarrow> heapify_down_from nodes idxs = Inl AttributeError"
  by (cases idxs) (simp_all add: call_heapify_down_def)

text \<open>
  C1: \<^verbatim>\<open>heapsort_in_place(S)\<close> is claimed to run the down-heapify step on every index from
  \<open>len(S) div 2\<close> down to 0, then \<^verbatim>\<open>heapify_children(0)\<close>, and to return a valid min-heap
  arrangement of \<open>S\<close>. The loop always has a first index, and its first step asks the heap for
  \<^verbatim>\<open>heapify_down\<close>, a name the class does not define: for every sequence the call raises, and
  no sequence is returned.
\<close>

theorem heapsort_in_place_raises: "heapsort_in_place S = Inl AttributeError"
proof -
  have "rev [0..<length S div 2 + 1] \<noteq> []" by simp
  then have "heapify_down_from S (rev [0..<length S div 2 + 1]) = Inl AttributeError"
    by (rule heapify_down_from_raises)
  then show ?thesis by (simp add: heapsort_in_place_def Let_def)
qed

text \<open>
  C9: for a non-empty sequence \<open>S\<close>, what \<^verbatim>\<open>heapsort_in_place(S)\<close> returns is claimed to be a
  permutation of \<open>S\<close> with the minimum of \<open>S\<close> at index 0. On the non-empty sequence
  \<open>[5, 1, 4, 6, 7, 3, 2]\<close> the loop starts at index 3, and the call of \<^verbatim>\<open>heapify_down\<close> there
  raises: nothing is returned, so there is no permutation and no element at index 0.
\<close>

theorem heapsort_in_place_returns_nothing:
  "rev [0..<length [5, 1, 4, 6, 7, 3, 2 :: int] div 2 + 1] = [3, 2, 1, 0]
   \<and> call_heapify_down [5, 1, 4, 6, 7, 3, 2] 3 = Inl AttributeError
   \<and> heapsort_in_place [5, 1, 4, 6, 7, 3, 2] = Inl AttributeError"
  by code_simp

text \<open>
  \<^verbatim>\<open>heapify_children\<close> on its own, called on a list that satisfies the min-heap invariant:
  on \<open>[1, 5, 2, 6, 7, 3, 4]\<close> it swaps the children 5 and 2 of the root and leaves their
  subtrees in place, so that 5 at index 2 ends above 3 at index 5 and the invariant is lost.
\<close>

theorem heapify_children_breaks_heap:
  "is_heap [1, 5, 2, 6, 7, 3, 4]
   \<and> heapify_children [1, 5, 2, 6, 7, 3, 4] 0 = [1, 2, 5, 6, 7, 3, 4]
   \<and> \<not> is_heap [1, 2, 5, 6, 7, 3, 4]"
  by code_simp

text \<open>
  \<^verbatim>\<open>heapify_children(0)\<close> on every list: it only exchanges siblings at indices from 1 on, so
  the list keeps its length, its multiset and its element at index 0.
\<close>

theorem heapify_children_keeps_root:
  "length (heapify_children nodes 0) = length nodes
   \<and> mset (heapify_children nodes 0) = mset nodes
   \<and> heapify_children nodes 0 ! 0 = nodes ! 0"
  using heapify_children_props [of nodes 0] by simp

subsection \<open>Insertion, peek and heapsort with auxiliary space\<close>

lemma list_update_twice_two:
  "h \<noteq> s \<Longrightarrow> st[h := a, s := b, h := c, s := d] = st[h := c, s := d]"
  by (metis list_update_overwrite list_update_swap)

lemma poll_loop_contents:
  "heap_nodes < length st \<Longrightarrow> sorted_input < length st \<Longrightarrow> heap_nodes \<noteq> sorted_input \<Longrightarrow>
   st ! heap_nodes = IntList nodes \<Longrightarrow> st ! sorted_input = OptList out \<Longrightarrow>
   poll_loop n st heap_nodes sorted_input =
     st[heap_nodes := IntList (fst (poll_into n nodes out)),
        sorted_input := OptList (snd (poll_into n nodes out))]"
proof (induction n arbitrary: st nodes out)
  case 0
  have "st[heap_nodes := IntList nodes] = st"
    using 0 by (metis list_update_id)
  moreover have "st[sorted_input := OptList out] = st"
    using 0 by (metis list_update_id)
  ultimately show ?case by simp
next
  case (Suc n)
  obtain polled nodes' where p: "poll nodes = (polled, nodes')" by (cases "poll nodes")
  define st1 where "st1 = st[heap_nodes := IntList nodes']"
  define st2 where "st2 = st1[sorted_input := OptList (out @ [polled])]"
  have step: "poll_loop (Suc n) st heap_nodes sorted_input = poll_loop n st2 heap_nodes sorted_input"
    using Suc.prems p by (simp add: st1_def st2_def)
  have "poll_loop n st2 heap_nodes sorted_input =
     st2[heap_nodes := IntList (fst (poll_into n nodes' (out @ [polled]))),
        sorted_input := OptList (snd (poll_into n nodes' (out @ [polled])))]"
    using Suc.prems by (intro Suc.IH) (simp_all add: st1_def st2_def)
  also have "\<dots> = st[heap_nodes := IntList (fst (poll_into (Suc n) nodes out)),
        sorted_input := OptList (snd (poll_into (Suc n) nodes out))]"
    using Suc.prems p by (simp add: st1_def st2_def list_update_twice_two)
  finally show ?case using step by simp
qed

lemma add_all_example: "add_all [] [10, 15, 8, 20, 17] = Some [8, 15, 10, 20, 17]"
  by code_simp

lemma poll_into_example:
  "poll_into 5 [8, 15, 10, 20, 17] [] = ([], [Some 8, Some 10, Some 15, Some 17, Some 20])"
  by code_simp

text \<open>
  C5: \<^verbatim>\<open>heapsort_aux\<close> applied to (a reference to) the list \<open>[10, 15, 8, 20, 17]\<close> returns a
  reference to a list holding \<open>[8, 10, 15, 17, 20]\<close>; the reference returned is not the
  reference given, and the list given still holds what it held.
\<close>

theorem heapsort_aux_example:
  assumes "unsorted_input < length st" and "st ! unsorted_input = IntList [10, 15, 8, 20, 17]"
  shows "\<exists>st' sorted_input.
           heapsort_aux st unsorted_input = Some (st', sorted_input)
           \<and> sorted_input < length st'
           \<and> st' ! sorted_input = OptList [Some 8, Some 10, Some 15, Some 17, Some 20]
           \<and> sorted_input \<noteq> unsorted_input
           \<and> st' ! unsorted_input = IntList [10, 15, 8, 20, 17]"
proof -
  define st3 where "st3 = st @ [IntList [8, 15, 10, 20, 17], OptList []]"
  have "poll_loop 5 st3 (length st) (Suc (length st)) =
     st3[length st := IntList (fst (poll_into 5 [8, 15, 10, 20, 17] [])),
        Suc (length st) := OptList (snd (poll_into 5 [8, 15, 10, 20, 17] []))]"
    by (rule poll_loop_contents) (simp_all add: st3_def nth_append)
  then have loop: "poll_loop 5 st3 (length st) (Suc (length st)) =
     st @ [IntList [], OptList [Some 8, Some 10, Some 15, Some 17, Some 20]]"
    by (simp add: poll_into_example st3_def list_update_append)
  have five: "length [10, 15, 8, 20, 17 :: int] = 5" by simp
  have "heapsort_aux st unsorted_input =
     Some (poll_loop (length [10, 15, 8, 20, 17 :: int]) st3 (length st) (Suc (length st)),
           Suc (length st))"
    using assms
    by (simp add: heapsort_aux_def alloc_def add_all_example st3_def
        del: add_all.simps poll_loop.simps)
  then have "heapsort_aux st unsorted_input =
     Some (st @ [IntList [], OptList [Some 8, Some 10, Some 15, Some 17, Some 20]],
           Suc (length st))"
    by (simp only: five loop)
  then show ?thesis using assms by (simp add: nth_append)
qed

theorem heapsort_aux_example_witness:
  "(0::nat) < length [IntList [10, 15, 8, 20, 17]]
   \<and> [IntList [10, 15, 8, 20, 17]] ! 0 = IntList [10, 15, 8, 20, 17]
   \<and> heapsort_aux [IntList [10, 15, 8, 20, 17]] 0 =
       Some ([IntList [10, 15, 8, 20, 17], IntList [],
              OptList [Some 8, Some 10, Some 15, Some 17, Some 20]], 2)"
proof -
  have a: "(0::nat) < length [IntList [10, 15, 8, 20, 17]]" by simp
  have b: "[IntList [10, 15, 8, 20, 17]] ! 0 = IntList [10, 15, 8, 20, 17]" by simp
  have c: "heapsort_aux [IntList [10, 15, 8, 20, 17]] 0 =
       Some ([IntList [10, 15, 8, 20, 17], IntList [],
              OptList [Some 8, Some 10, Some 15, Some 17, Some 20]], 2)" by code_simp
  show ?thesis using heapsort_aux_example [OF a b] a b c by simp
qed

text \<open>
  C2: after \<^verbatim>\<open>add(x)\<close> on a state satisfying the min-heap invariant, the invariant is claimed
  to hold again. \<^verbatim>\<open>__heapify_up\<close> tests the parent's value for truth, so a parent holding 0
  counts as no parent: adding \<open>-1\<close> to the heap \<open>[0]\<close> returns with the list \<open>[0, -1]\<close>, which
  does not satisfy the invariant. The constructor reaches the same state from \<open>[0, -1]\<close>.
\<close>

theorem add_breaks_heap:
  "is_heap [0] \<and> add [0] (- 1) = Some [0, - 1] \<and> \<not> is_heap [0, - 1]
   \<and> MinHeap [0, - 1] = Some [0, - 1]"
  by code_simp

lemma heapify_up_mset:
  "heapify_up nodes child = Some r \<Longrightarrow> mset r = mset nodes"
  by (rule heapify_up.raw_induct [where P = "\<lambda>nodes child r. mset r = mset nodes", rotated])
     (auto simp: Let_def split: if_splits)

text \<open>
  Whenever \<^verbatim>\<open>add(x)\<close> returns, the list holds the prior multiset plus \<open>x\<close>.
\<close>

theorem add_multiset:
  "add nodes x = Some r \<Longrightarrow> mset r = mset nodes + {#x#}"
  by (auto simp: add_def dest: heapify_up_mset)

theorem add_multiset_witness:
  "add [8, 15, 10] 3 = Some [3, 8, 10, 15]
   \<and> mset [3, 8, 10, 15] = mset [8, 15, 10 :: int] + {#3#}"
proof -
  have a: "add [8, 15, 10] 3 = Some [3, 8, 10, 15]" by code_simp
  show ?thesis using add_multiset [OF a] a by simp
qed

text \<open>
  C4: \<^verbatim>\<open>peek\<close> is claimed to return the root of a non-empty heap and the empty signal on an
  empty heap. The test in the source is inverted: on the non-empty heap \<open>[5]\<close> it returns the
  empty signal, and on the empty heap it reads index 0 of an empty list, which raises.
  \<^verbatim>\<open>is_empty\<close> is true exactly on the empty list.
\<close>

theorem peek_inverted:
  "\<not> is_empty [5] \<and> peek [5] = Inr None \<and> is_empty [] \<and> peek [] = Inl IndexError"
  by (simp add: peek_def is_empty_def)

section \<open>Verification of SinglyLinkedList\<close>

lemma never_out_of_range: "\<not> out_of_range l index"
proof -
  have "0 \<le> len l" by (simp add: len_def iter_def) (cases "HEAD l" rule: nodes_from.cases, auto)
  then show ?thesis by (auto simp: out_of_range_def)
qed

text \<open>
  C10: for every list and every negative index, \<^verbatim>\<open>get(index)\<close> is claimed to return the
  first data node without raising the out-of-range error. A list without data nodes has no
  first data node, and there \<^verbatim>\<open>get(-1)\<close> returns the empty marker.
\<close>

theorem negative_index_counterexample:
  "payloads empty_list = [] \<and> getitem empty_list (- 1) = Inr None"
  by (simp add: payloads_def iter_def empty_list_def getitem_def out_of_range_def len_def)

text \<open>
  C10 as amended: for every list and every negative index, \<^verbatim>\<open>get(index)\<close> does not raise the
  out-of-range error: the loop runs no step and the call returns what follows the sentinel,
  exactly as index 0 does; that is the first data node when the list has one, and the empty
  marker when it has none. And \<^verbatim>\<open>set(-1, data)\<close> does not raise either: it runs no step and
  overwrites the payload of the sentinel, leaving every data node as it was.
\<close>

theorem negative_index:
  assumes "index < 0"
  shows "getitem l index = Inr (nxt (HEAD l))
         \<and> getitem l index = getitem l 0
         \<and> setitem l (- 1) v = Inr (l\<lparr>HEAD := SLLNode v (nxt (HEAD l))\<rparr>)"
proof -
  have "nat index = 0" using assms by simp
  then show ?thesis
    by (cases "HEAD l") (simp add: getitem_def setitem_def never_out_of_range)
qed

theorem negative_index_witness:
  "(- 3 :: int) < 0
   \<and> getitem (append (append empty_list (PInt 1)) (PInt 2)) (- 3) =
       Inr (Some (SLLNode (PInt 1) (Some (SLLNode (PInt 2) None))))
   \<and> setitem (append (append empty_list (PInt 1)) (PInt 2)) (- 1) (PInt 7) =
       Inr \<lparr>HEAD = SLLNode (PInt 7) (Some (SLLNode (PInt 1) (Some (SLLNode (PInt 2) None))))\<rparr>"
proof -
  have a: "(- 3 :: int) < 0" by simp
  show ?thesis
    using negative_index [OF a, of "append (append empty_list (PInt 1)) (PInt 2)" "PInt 7"]
    by (simp add: append_def empty_list_def)
qed

text \<open>
  C6: \<^verbatim>\<open>get\<close>, \<^verbatim>\<open>set\<close> and \<^verbatim>\<open>delete\<close> are claimed to fail with the out-of-range signal
  exactly when the index is negative or at least the length. The guard of the source joins its
  two tests with \<^verbatim>\<open>and\<close>, so it never fires. On the list of 1 and 2 (length 2): index -1
  reads the first node and deletes the first node; index 2 reads nothing, and deleting there
  changes nothing; setting at index 2 and reading at index 3 fail, but with the error of reading
  an attribute of \<^verbatim>\<open>None\<close>, not with the out-of-range signal.
\<close>

theorem index_guard_never_fires:
  "len (append (append empty_list (PInt 1)) (PInt 2)) = 2
   \<and> getitem (append (append empty_list (PInt 1)) (PInt 2)) (- 1) =
       Inr (Some (SLLNode (PInt 1) (Some (SLLNode (PInt 2) None))))
   \<and> getitem (append (append empty_list (PInt 1)) (PInt 2)) 2 = Inr None
   \<and> getitem (append (append empty_list (PInt 1)) (PInt 2)) 3 = Inl AttributeError
   \<and> setitem (append (append empty_list (PInt 1)) (PInt 2)) 2 (PInt 7) = Inl AttributeError
   \<and> delitem (append (append empty_list (PInt 1)) (PInt 2)) (- 1) =
       Inr \<lparr>HEAD = SLLNode (PStr ''HEAD'') (Some (SLLNode (PInt 2) None))\<rparr>
   \<and> delitem (append (append empty_list (PInt 1)) (PInt 2)) 2 =
       Inr (append (append empty_list (PInt 1)) (PInt 2))"
  by code_simp

text \<open>
  C7: \<^verbatim>\<open>remove(data)\<close> is claimed to complete silently and without effect when \<open>data\<close> is
  absent from a non-empty list. The loop reads \<^verbatim>\<open>node.next.data\<close> at every node it visits, and
  at the last node \<^verbatim>\<open>node.next\<close> is \<^verbatim>\<open>None\<close>: removing 2 from the list of 1 raises. On the
  empty list the call returns the empty signal and changes nothing, and a payload that is
  present is unlinked.
\<close>

theorem remove_absent_raises:
  "remove (append empty_list (PInt 1)) (PInt 2) = Inl AttributeError
   \<and> remove empty_list (PInt 2) = Inr (None, empty_list)
   \<and> remove (append (append empty_list (PInt 1)) (PInt 2)) (PInt 2) =
       Inr (Some (append empty_list (PInt 1)), append empty_list (PInt 1))"
  by code_simp

text \<open>
  C8: \<^verbatim>\<open>contains(x)\<close> is claimed to be true exactly when \<^verbatim>\<open>find(x)\<close> returns a node. Both
  scan the sentinel too, whose payload is the string HEAD, but only \<^verbatim>\<open>find\<close> returns at once
  on a list without data nodes: on the empty list \<^verbatim>\<open>contains\<close> of that string is true and
  \<^verbatim>\<open>find\<close> of it returns the empty signal.
\<close>

theorem contains_find_disagree:
  "contains empty_list (PStr ''HEAD'') \<and> find empty_list (PStr ''HEAD'') = None"
  by code_simp

text \<open>
  For every list, index and payload, none of the three indexed methods ends with the
  out-of-range signal.
\<close>

theorem indexed_never_index_error:
  "getitem l index \<noteq> Inl IndexError
   \<and> setitem l index v \<noteq> Inl IndexError
   \<and> delitem l index \<noteq> Inl IndexError"
proof -
  have "walk k n \<noteq> Inl IndexError" for k n
    by (induction k n rule: walk.induct) simp_all
  moreover have "set_data_at k v n \<noteq> Inl IndexError" for k n
    by (induction k v n rule: set_data_at.induct) (auto split: sum.splits)
  moreover have "unlink_after k n \<noteq> Inl IndexError" for k n
    by (induction k n rule: unlink_after.induct) (auto split: sum.splits)
  ultimately show ?thesis
    by (auto simp: getitem_def setitem_def delitem_def never_out_of_range
        split: sum.splits option.splits)
qed

lemma contains_find_loop: "contains_loop ns x \<longleftrightarrow> find_loop ns x \<noteq> None"
  by (induction ns) auto

text \<open>
  On a list with at least one data node, \<^verbatim>\<open>contains(x)\<close> is true exactly when \<^verbatim>\<open>find(x)\<close>
  returns a node.
\<close>

theorem contains_iff_find_nonempty:
  "nxt (HEAD l) \<noteq> None \<Longrightarrow> contains l x \<longleftrightarrow> find l x \<noteq> None"
  by (auto simp: contains_def find_def contains_find_loop)

theorem contains_iff_find_nonempty_witness:
  "nxt (HEAD (append empty_list (PInt 1))) \<noteq> None
   \<and> contains (append empty_list (PInt 1)) (PInt 1)
   \<and> find (append empty_list (PInt 1)) (PInt 1) = Some (SLLNode (PInt 1) None)
   \<and> \<not> contains (append empty_list (PInt 1)) (PInt 2)
   \<and> find (append empty_list (PInt 1)) (PInt 2) = None"
proof -
  have a: "nxt (HEAD (append empty_list (PInt 1))) \<noteq> None"
    by (simp add: append_def empty_list_def)
  show ?thesis
    using contains_iff_find_nonempty [OF a, of "PInt 1"]
      contains_iff_find_nonempty [OF a, of "PInt 2"]
    by (simp add: append_def empty_list_def find_def iter_def)
qed

lemma remove_loop_present:
  "x \<in> set (map data (tl (nodes_from n))) \<Longrightarrow>
   \<exists>n'. remove_loop n x = Inr n' \<and> data n' = data n
     \<and> map data (tl (nodes_from n')) = remove1 x (map data (tl (nodes_from n)))"
proof (induction n x rule: remove_loop.induct)
  case (1 d x)
  then show ?case by simp
next
  case (2 d n x)
  show ?case
  proof (cases "data n = x")
    case True
    then show ?thesis by (cases n; cases "nxt n") auto
  next
    case False
    then have "x \<in> set (map data (tl (nodes_from n)))"
      using 2(2) by (cases n; cases "nxt n") auto
    from 2(1) [OF False this] obtain n' where n': "remove_loop n x = Inr n'"
      "data n' = data n"
      "map data (tl (nodes_from n')) = remove1 x (map data (tl (nodes_from n)))"
      by blast
    then show ?thesis using False
      by (cases n; cases "nxt n"; cases n'; cases "nxt n'") auto
  qed
qed

lemma remove_loop_absent:
  "x \<notin> set (map data (tl (nodes_from n))) \<Longrightarrow> remove_loop n x = Inl AttributeError"
proof (induction n x rule: remove_loop.induct)
  case (1 d x)
  then show ?case by simp
next
  case (2 d n x)
  then show ?case by (cases n; cases "nxt n") auto
qed

text \<open>
  What \<^verbatim>\<open>remove(data)\<close> does on every list: when a data node holds the payload, the call
  returns the list with the first such node unlinked and the sentinel as it was; on a list
  without data nodes it returns the empty signal and changes nothing; and when the payload is
  absent from a list with data nodes it raises.
\<close>

theorem remove_behaviour:
  "if x \<in> set (payloads l)
   then (\<exists>l'. remove l x = Inr (Some l', l') \<and> data (HEAD l') = data (HEAD l)
              \<and> payloads l' = remove1 x (payloads l))
   else if payloads l = [] then remove l x = Inr (None, l)
   else remove l x = Inl AttributeError"
proof (cases "x \<in> set (payloads l)")
  case True
  then have ne: "nxt (HEAD l) \<noteq> None"
    by (cases "HEAD l"; cases "nxt (HEAD l)") (auto simp: payloads_def iter_def)
  from True obtain n' where n': "remove_loop (HEAD l) x = Inr n'" "data n' = data (HEAD l)"
      "map data (tl (nodes_from n')) = remove1 x (map data (tl (nodes_from (HEAD l))))"
    using remove_loop_present [of x "HEAD l"] by (auto simp: payloads_def iter_def)
  then show ?thesis using True ne
    by (auto simp: remove_def payloads_def iter_def)
next
  case False
  show ?thesis
  proof (cases "payloads l = []")
    case True
    then have "nxt (HEAD l) = None"
      by (cases "HEAD l"; cases "nxt (HEAD l)"; cases "the (nxt (HEAD l))";
          cases "nxt (the (nxt (HEAD l)))") (auto simp: payloads_def iter_def)
    then show ?thesis using False True by (simp add: remove_def)
  next
    case ne: False
    then have "nxt (HEAD l) \<noteq> None"
      by (cases "HEAD l"; cases "nxt (HEAD l)") (auto simp: payloads_def iter_def)
    moreover have "remove_loop (HEAD l) x = Inl AttributeError"
      using False by (intro remove_loop_absent) (simp add: payloads_def iter_def)
    ultimately show ?thesis using False ne by (simp add: remove_def)
  qed
qed

theorem remove_behaviour_witness:
  "PInt 1 \<in> set (payloads (append (append (append empty_list (PInt 2)) (PInt 1)) (PInt 1)))
   \<and> remove (append (append (append empty_list (PInt 2)) (PInt 1)) (PInt 1)) (PInt 1) =
       Inr (Some (append (append empty_list (PInt 2)) (PInt 1)),
            append (append empty_list (PInt 2)) (PInt 1))
   \<and> payloads (append (append empty_list (PInt 2)) (PInt 1)) = [PInt 2, PInt 1]"
  using remove_behaviour
    [of "PInt 1" "append (append (append empty_list (PInt 2)) (PInt 1)) (PInt 1)"]
  by (simp add: append_def empty_list_def payloads_def iter_def remove_def)

end
